theory Spec2Isabelle
  imports Main "HOL-Library.Word"
begin

unbundle bit_operations_syntax

section \<open>The HSK synchronous serial interface (hsk\_ssc.h)\<close>

text \<open>
  The header consists of three groups of preprocessor constants (the I/O port
  selections, the operating modes), two function-like macros (\<open>SSC_BAUD\<close>,
  \<open>SSC_CONF\<close>), the macro \<open>hsk_ssc_busy\<close> and the prototypes of five functions.
  The macros are embedded as they are written. Integer types of the target
  (an 8051 derivative): \<open>int\<close> constants and expressions of the macros are
  modelled as mathematical integers where no operand leaves the range of a C
  \<open>int\<close>; \<open>unsigned long\<close> is 32 bits wide; \<open>ubyte\<close> and \<open>char\<close> are 8 bits.
\<close>

subsection \<open>Types\<close>

text \<open>
  Modelled from the spec: the typedef \<open>uword\<close> is not part of the header; the
  spec gives the baud divisor of \<open>hsk_ssc_init\<close> as an unsigned 16-bit value.
\<close>

type_synonym uword = "16 word"

type_synonym ubyte = "8 word"

type_synonym ulong = "32 word"

text \<open>
  Outcomes of evaluating an encoder. \<open>InvalidParameter\<close> and \<open>IllegalState\<close>
  are the two error kinds the spec names; \<open>DivisionByZero\<close> is the one
  evaluation of the header's macros that has no value in C.
\<close>

datatype error = InvalidParameter | IllegalState | DivisionByZero

subsection \<open>I/O port selection constants\<close>

definition SSC_MRST_P05 :: int where "SSC_MRST_P05 = 1"

definition SSC_MRST_P14 :: int where "SSC_MRST_P14 = 0"

definition SSC_MRST_P15 :: int where "SSC_MRST_P15 = 2"

definition SSC_MTSR_P04 :: int where "SSC_MTSR_P04 = push_bit 2 1"

definition SSC_MTSR_P13 :: int where "SSC_MTSR_P13 = push_bit 2 0"

definition SSC_MTSR_P14 :: int where "SSC_MTSR_P14 = push_bit 2 2"

definition SSC_SCLK_P03 :: int where "SSC_SCLK_P03 = push_bit 4 1"

definition SSC_SCLK_P12 :: int where "SSC_SCLK_P12 = push_bit 4 0"

definition SSC_SCLK_P13 :: int where "SSC_SCLK_P13 = push_bit 4 2"

definition MRST_ports :: "int set" where
  "MRST_ports = {SSC_MRST_P05, SSC_MRST_P14, SSC_MRST_P15}"

definition MTSR_ports :: "int set" where
  "MTSR_ports = {SSC_MTSR_P04, SSC_MTSR_P13, SSC_MTSR_P14}"

definition SCLK_ports :: "int set" where
  "SCLK_ports = {SSC_SCLK_P03, SSC_SCLK_P12, SSC_SCLK_P13}"

subsection \<open>Operating modes\<close>

text \<open>\<open>SSC_MASTER\<close> is 1 and \<open>SSC_SLAVE\<close> is 0; \<open>hsk_ssc_init\<close> takes the mode as a \<open>bool\<close>.\<close>

definition SSC_MASTER :: bool where "SSC_MASTER = True"

definition SSC_SLAVE :: bool where "SSC_SLAVE = False"

text \<open>
  The note of \<open>SSC_BAUD\<close> and the comment of \<open>hsk_ssc_init\<close>: the maximum speed
  is 12 Mbit/s in master mode and 6 Mbit/s in slave mode. The header states
  this in prose only; no macro or function of the header computes with it.
\<close>

definition max_bps :: "bool \<Rightarrow> ulong" where
  "max_bps mode = (if mode = SSC_MASTER then 12000000 else 6000000)"

subsection \<open>The baud rate macro\<close>

text \<open>
  \<^verbatim>\<open>#define SSC_BAUD(bps)  (uword)(12000000ul / (bps) - 1)\<close>

  The constant is an \<open>unsigned long\<close>, so the quotient and the difference are
  computed in 32-bit unsigned arithmetic (the argument is converted to
  \<open>unsigned long\<close>), and the cast keeps the low 16 bits. A division by zero
  has no value.
\<close>

definition SSC_BAUD :: "ulong \<Rightarrow> error + uword" where
  "SSC_BAUD bps =
     (if bps = 0 then Inl DivisionByZero
      else Inr (ucast (12000000 div bps - 1)))"

subsection \<open>The configuration byte macro\<close>

text \<open>
  \<^verbatim>\<open>#define SSC_CONF(width, heading, phase, polarity, duplex) \
	(((width) - 1) | ((heading) << 4) | ((phase) << 5) | ((polarity) << 6) | ((duplex) << 7))\<close>
\<close>

definition SSC_CONF :: "int \<Rightarrow> int \<Rightarrow> int \<Rightarrow> int \<Rightarrow> int \<Rightarrow> int" where
  "SSC_CONF width heading phase polarity duplex =
     ((width - 1) OR push_bit 4 heading OR push_bit 5 phase
        OR push_bit 6 polarity OR push_bit 7 duplex)"

text \<open>
  The macro as the frame encoder of the spec: its body is a single expression
  of \<open>-\<close>, \<open>|\<close> and \<open><<\<close> without any test of its arguments, so every
  evaluation ends in a value.
\<close>

definition SSC_CONF_result :: "int \<Rightarrow> int \<Rightarrow> int \<Rightarrow> int \<Rightarrow> int \<Rightarrow> error + int" where
  "SSC_CONF_result width heading phase polarity duplex =
     Inr (SSC_CONF width heading phase polarity duplex)"

section \<open>The driver functions\<close>

text \<open>
  The header declares \<open>hsk_ssc_init\<close>, \<open>hsk_ssc_ports\<close>, \<open>hsk_ssc_talk\<close>,
  \<open>hsk_ssc_enable\<close> and \<open>hsk_ssc_disable\<close> by prototype only; their bodies
  are not in the header. They are modelled from the specification's
  lifecycle controller, port router and transceive engine.
\<close>

text \<open>
  Modelled from the spec: the three phases of the peripheral
  (\<open>Disabled\<close>, \<open>Enabled-Idle\<close>, \<open>Enabled-Busy\<close>).
\<close>

datatype PeripheralState = Disabled | Enabled_Idle | Enabled_Busy

text \<open>
  Modelled from the spec: what the transceive engine does on the line, which
  the header does not describe: position \<open>i\<close> of the
  buffer is loaded into the shift register for transmission, or the
  completion flag fires for position \<open>i\<close> with the byte received.
\<close>

datatype event = Transmit nat ubyte | Complete nat ubyte

fun is_Complete :: "event \<Rightarrow> bool" where
  "is_Complete (Complete i b) = True"
| "is_Complete (Transmit i b) = False"

text \<open>
  Modelled from the spec: the process-wide hardware state. \<open>divisor\<close>,
  \<open>frame\<close>, \<open>master\<close> and \<open>routing\<close> are the registers written by
  \<open>hsk_ssc_init\<close> and \<open>hsk_ssc_ports\<close>; \<open>buffer\<close> is the caller's buffer borrowed
  by the transfer in flight, \<open>len\<close> its requested length, \<open>pos\<close> the position
  of the byte in the shift register \<open>shiftreg\<close>; \<open>events\<close> records what
  happened on the line.
\<close>

record ssc =
  pstate :: PeripheralState
  divisor :: uword
  frame :: ubyte
  master :: bool
  routing :: ubyte
  buffer :: "ubyte list"
  len :: nat
  pos :: nat
  shiftreg :: ubyte
  events :: "event list"

text \<open>
  Modelled from the spec: the peripheral before the first call, \<open>Disabled\<close>
  and unconfigured.
\<close>

definition reset :: ssc where
  "reset = \<lparr>pstate = Disabled, divisor = 0, frame = 0, master = False, routing = 0,
     buffer = [], len = 0, pos = 0, shiftreg = 0, events = []\<rparr>"

text \<open>
  Modelled from the spec: the body of \<open>hsk_ssc_init\<close>: it writes the divisor
  and the frame configuration, sets the operating mode and leaves the state
  \<open>Disabled\<close>; it is always legal.
\<close>

definition hsk_ssc_init :: "uword \<Rightarrow> ubyte \<Rightarrow> bool \<Rightarrow> ssc \<Rightarrow> ssc" where
  "hsk_ssc_init baud config mode s =
     s\<lparr>divisor := baud, frame := config, master := mode, pstate := Disabled\<rparr>"

text \<open>
  Modelled from the spec: the body of \<open>hsk_ssc_ports\<close>: it writes the routing
  bits; its precondition is the state \<open>Disabled\<close>, and a call while enabled
  has no defined outcome.
\<close>

definition hsk_ssc_ports :: "ubyte \<Rightarrow> ssc \<Rightarrow> error + ssc" where
  "hsk_ssc_ports ports s =
     (if pstate s = Disabled then Inr (s\<lparr>routing := ports\<rparr>) else Inl IllegalState)"

text \<open>
  Modelled from the spec: the body of \<open>hsk_ssc_enable\<close>: \<open>Disabled\<close> becomes
  \<open>Enabled-Idle\<close>; a no-op if already enabled.
\<close>

definition hsk_ssc_enable :: "ssc \<Rightarrow> ssc" where
  "hsk_ssc_enable s = (if pstate s = Disabled then s\<lparr>pstate := Enabled_Idle\<rparr> else s)"

text \<open>
  Modelled from the spec: the body of \<open>hsk_ssc_disable\<close>: any state becomes
  \<open>Disabled\<close>; a transfer in flight is aborted and the bytes not yet
  transferred stay in the buffer unmodified.
\<close>

definition hsk_ssc_disable :: "ssc \<Rightarrow> ssc" where
  "hsk_ssc_disable s = s\<lparr>pstate := Disabled\<rparr>"

text \<open>
  Modelled from the spec: step 1 of the transceive engine for the position
  \<open>pos\<close>: the byte of the buffer is loaded into the shift register as the
  byte to transmit; the state is \<open>Enabled-Busy\<close> from the first load on.
\<close>

definition load_byte :: "ssc \<Rightarrow> ssc" where
  "load_byte s =
     s\<lparr>pstate := Enabled_Busy, shiftreg := buffer s ! pos s,
       events := events s @ [Transmit (pos s) (buffer s ! pos s)]\<rparr>"

text \<open>
  Modelled from the spec: step 3 of the transceive engine: when the hardware
  completion flag fires with the received byte \<open>rx\<close>, the byte overwrites the
  position just transmitted; then the next position is loaded or, after the
  last one, the state returns to \<open>Enabled-Idle\<close>. Without a transfer in
  flight nothing waits for the flag.
\<close>

definition byte_complete :: "ubyte \<Rightarrow> ssc \<Rightarrow> ssc" where
  "byte_complete rx s =
     (if pstate s \<noteq> Enabled_Busy then s
      else let s' = s\<lparr>buffer := (buffer s)[pos s := rx],
                      events := events s @ [Complete (pos s) rx],
                      pos := pos s + 1\<rparr>
           in if pos s' < len s' then load_byte s' else s'\<lparr>pstate := Enabled_Idle\<rparr>)"

text \<open>
  Modelled from the spec: the body of \<open>hsk_ssc_talk\<close>
  (\<^verbatim>\<open>void hsk_ssc_talk(char xdata * buffer, ubyte len)\<close>): it requires the
  state \<open>Enabled-Idle\<close> and a buffer of at least \<open>len\<close> bytes; a second call
  while busy fails; with \<open>len = 0\<close> it stays \<open>Enabled-Idle\<close> and nothing
  happens on the line; otherwise it loads the first byte.
\<close>

definition hsk_ssc_talk :: "ubyte list \<Rightarrow> ubyte \<Rightarrow> ssc \<Rightarrow> error + ssc" where
  "hsk_ssc_talk buf n s =
     (if pstate s \<noteq> Enabled_Idle \<or> length buf < unat n then Inl IllegalState
      else let s' = s\<lparr>buffer := buf, len := unat n, pos := 0\<rparr>
           in if unat n = 0 then Inr s' else Inr (load_byte s'))"

text \<open>
  Modelled from the spec: \<open>busy\<close> reads whether the state is \<open>Enabled-Busy\<close>.
  (The header defines \<open>hsk_ssc_busy()\<close> as the flag \<open>ESSC\<close>, which it does not
  declare.)
\<close>

definition hsk_ssc_busy :: "ssc \<Rightarrow> bool" where
  "hsk_ssc_busy s = (pstate s = Enabled_Busy)"

text \<open>
  Modelled from the spec: the completion flag firing once for each byte of
  \<open>rxs\<close>, in order.
\<close>

fun completions :: "ubyte list \<Rightarrow> ssc \<Rightarrow> ssc" where
  "completions [] s = s"
| "completions (rx # rxs) s = completions rxs (byte_complete rx s)"

text \<open>
  Modelled from the spec: the line events of a complete transfer of the
  first \<open>k\<close> positions (steps 1 to 3 of the transceive engine for each):
  position by position, the transmission of the buffer's byte and then the
  completion with the byte received.
\<close>

definition transfer_events :: "ubyte list \<Rightarrow> ubyte list \<Rightarrow> nat \<Rightarrow> event list" where
  "transfer_events buf rxs k =
     concat (map (\<lambda>i. [Transmit i (buf ! i), Complete i (rxs ! i)]) [0..<k])"

text \<open>
  Modelled from the spec: the calls a program can make and the completion
  flag, and the states they lead to from the state after reset (the
  reachable states).
\<close>

datatype call =
    Init uword ubyte bool
  | Ports ubyte
  | Enable
  | Disable
  | Talk "ubyte list" ubyte
  | Completion ubyte

fun do_call :: "call \<Rightarrow> ssc \<Rightarrow> error + ssc" where
  "do_call (Init baud config mode) s = Inr (hsk_ssc_init baud config mode s)"
| "do_call (Ports ports) s = hsk_ssc_ports ports s"
| "do_call Enable s = Inr (hsk_ssc_enable s)"
| "do_call Disable s = Inr (hsk_ssc_disable s)"
| "do_call (Talk buf n) s = hsk_ssc_talk buf n s"
| "do_call (Completion rx) s = Inr (byte_complete rx s)"

fun do_calls :: "call list \<Rightarrow> ssc \<Rightarrow> error + ssc" where
  "do_calls [] s = Inr s"
| "do_calls (c # cs) s = (case do_call c s of Inl e \<Rightarrow> Inl e | Inr s' \<Rightarrow> do_calls cs s')"

section \<open>Properties of the baud rate macro\<close>

lemma uint_uword_cast: "uint (ucast (w :: ulong) :: uword) = uint w mod 65536"
  by (simp add: unsigned_ucast_eq take_bit_eq_mod)

lemma uint_ulong_pred: "uint ((q :: ulong) - 1) = (uint q - 1) mod 4294967296"
  by (simp add: uint_word_ariths)

lemma uword_cast_minus_one: "(ucast (- 1 :: ulong) :: uword) = 65535"
  by (simp add: word_uint_eq_iff unsigned_ucast_eq take_bit_eq_mod uint_word_ariths)

lemma baud_quotient: "uint ((12000000 :: ulong) div bps) = 12000000 div uint bps"
  by (simp add: uint_div)

text \<open>
  The value of the macro for every nonzero argument, read as an integer: the
  quotient less one, reduced modulo \<open>2 ^ 16\<close> (which is 65535 when the quotient
  is 0).
\<close>

lemma SSC_BAUD_uint:
  assumes "bps \<noteq> 0"
  shows "\<exists>d. SSC_BAUD bps = Inr d \<and> uint d = (12000000 div uint bps - 1) mod 65536"
proof -
  let ?q = "(12000000 :: ulong) div bps"
  have "uint (ucast (?q - 1) :: uword) = ((uint ?q - 1) mod 4294967296) mod 65536"
    by (simp only: uint_uword_cast uint_ulong_pred)
  also have "\<dots> = (uint ?q - 1) mod 65536"
    by (rule mod_mod_cancel) simp
  finally have "uint (ucast (?q - 1) :: uword) = (12000000 div uint bps - 1) mod 65536"
    by (simp only: baud_quotient)
  with assms show ?thesis by (simp add: SSC_BAUD_def)
qed

lemma baud_quotient_bounds:
  assumes "184 \<le> (bps :: ulong)" and "bps \<le> 12000000"
  shows "1 \<le> 12000000 div uint bps \<and> 12000000 div uint bps \<le> 65217"
proof -
  from assms have lo: "184 \<le> uint bps" and hi: "uint bps \<le> 12000000"
    by (simp_all add: word_le_def)
  have "12000000 div uint bps \<le> 12000000 div 184"
    using lo by (intro zdiv_mono2) simp_all
  moreover have "12000000 div 12000000 \<le> 12000000 div uint bps"
    using lo hi by (intro zdiv_mono2) simp_all
  ultimately show ?thesis by simp
qed

lemma baud_quotient_antimono:
  assumes "bps1 \<noteq> 0" and "bps1 \<le> bps2"
  shows "12000000 div uint bps2 \<le> 12000000 div uint (bps1 :: ulong)"
proof -
  from assms have "0 < uint bps1" and "uint bps1 \<le> uint bps2"
    by (simp_all add: word_le_def word_greater_zero_iff uint_0_iff less_le)
  then show ?thesis by (intro zdiv_mono2) simp_all
qed

lemma SSC_BAUD_exact_uint:
  assumes "184 \<le> (bps :: ulong)" and "bps \<le> 12000000"
  shows "\<exists>d. SSC_BAUD bps = Inr d \<and> uint d = 12000000 div uint bps - 1"
proof -
  from assms(1) have "bps \<noteq> 0" by auto
  then obtain d where d: "SSC_BAUD bps = Inr d"
    and v: "uint d = (12000000 div uint bps - 1) mod 65536"
    using SSC_BAUD_uint by blast
  from baud_quotient_bounds [OF assms]
  have "0 \<le> 12000000 div uint bps - 1" and "12000000 div uint bps - 1 < 65536"
    by simp_all
  then have "(12000000 div uint bps - 1) mod 65536 = 12000000 div uint bps - 1"
    by (rule mod_pos_pos_trivial)
  with d v show ?thesis by simp
qed

text \<open>
  C1, as stated, at \<open>bps = 1\<close>: the quotient less one is 11999999, which the
  cast to \<open>uword\<close> reduces to 6911.
\<close>

theorem C1_counterexample:
  "SSC_BAUD 1 = Inr 6911 \<and> uint (6911 :: uword) \<noteq> 12000000 div uint (1 :: ulong) - 1"
  by (simp add: SSC_BAUD_def)

text \<open>
  C1 (amended): for every \<open>bps\<close> with \<open>184 \<le> bps \<le> 12000000\<close> the baud macro
  returns exactly \<open>floor (12000000 / bps) - 1\<close>; in particular
  \<open>SSC_BAUD (1000000) = 11\<close>. (Below 184 the divisor no longer fits the 16-bit
  \<open>uword\<close> and the cast truncates it.)
\<close>

theorem C1_SSC_BAUD_exact:
  assumes "184 \<le> (bps :: ulong)" and "bps \<le> 12000000"
  shows "(\<exists>d. SSC_BAUD bps = Inr d \<and> uint d = 12000000 div uint bps - 1)
    \<and> SSC_BAUD 1000000 = Inr 11"
proof -
  have "SSC_BAUD 1000000 = Inr 11" by (simp add: SSC_BAUD_def)
  with SSC_BAUD_exact_uint [OF assms] show ?thesis by simp
qed

theorem C1_SSC_BAUD_exact_witness:
  "(184 :: ulong) \<le> 48000 \<and> (48000 :: ulong) \<le> 12000000
    \<and> SSC_BAUD 48000 = Inr 249 \<and> uint (249 :: uword) = 12000000 div uint (48000 :: ulong) - 1
    \<and> SSC_BAUD 1000000 = Inr 11"
  using C1_SSC_BAUD_exact [of 48000] by (simp add: SSC_BAUD_def)

text \<open>
  C6, as stated, at \<open>bps1 = 183\<close> and \<open>bps2 = 184\<close>: the lower rate gets the
  truncated divisor 36, the higher rate the divisor 65216.
\<close>

theorem C6_counterexample:
  "(1 :: ulong) \<le> 183 \<and> (183 :: ulong) \<le> 184 \<and> (184 :: ulong) \<le> 12000000
    \<and> SSC_BAUD 183 = Inr 36 \<and> SSC_BAUD 184 = Inr 65216 \<and> \<not> ((36 :: uword) \<ge> 65216)"
  by (simp add: SSC_BAUD_def)

text \<open>
  C6 (amended): the baud encoding is monotone where the divisor fits the
  16-bit result: for all \<open>bps1\<close>, \<open>bps2\<close> with
  \<open>184 \<le> bps1 \<le> bps2 \<le> 12000000\<close>, \<open>SSC_BAUD (bps1) \<ge> SSC_BAUD (bps2)\<close>.
\<close>

theorem C6_SSC_BAUD_antimono:
  assumes "184 \<le> (bps1 :: ulong)" and "bps1 \<le> bps2" and "bps2 \<le> 12000000"
  shows "\<exists>d1 d2. SSC_BAUD bps1 = Inr d1 \<and> SSC_BAUD bps2 = Inr d2 \<and> d1 \<ge> d2"
proof -
  from assms have r1: "184 \<le> bps1" "bps1 \<le> 12000000"
    and r2: "184 \<le> bps2" "bps2 \<le> 12000000"
    by auto
  from SSC_BAUD_exact_uint [OF r1] obtain d1
    where d1: "SSC_BAUD bps1 = Inr d1" "uint d1 = 12000000 div uint bps1 - 1"
    by blast
  from SSC_BAUD_exact_uint [OF r2] obtain d2
    where d2: "SSC_BAUD bps2 = Inr d2" "uint d2 = 12000000 div uint bps2 - 1"
    by blast
  from assms(1) have "bps1 \<noteq> 0" by auto
  from baud_quotient_antimono [OF this assms(2)] d1(2) d2(2)
  have "uint d2 \<le> uint d1" by simp
  then have "d2 \<le> d1" by (simp add: word_le_def)
  with d1(1) d2(1) show ?thesis by blast
qed

theorem C6_SSC_BAUD_antimono_witness:
  "(184 :: ulong) \<le> 1000000 \<and> (1000000 :: ulong) \<le> 2000000 \<and> (2000000 :: ulong) \<le> 12000000
    \<and> SSC_BAUD 1000000 = Inr 11 \<and> SSC_BAUD 2000000 = Inr 5 \<and> (11 :: uword) \<ge> 5"
  using C6_SSC_BAUD_antimono [of 1000000 2000000] by (simp add: SSC_BAUD_def)

text \<open>
  C8, as stated, at three requests that the claim says must fail: 12 Mbit/s in
  slave mode (above the slave ceiling of 6 Mbit/s) yields the divisor 0;
  24 Mbit/s in master mode (above the master ceiling) yields 65535; and 100
  bit/s, whose divisor 119999 exceeds the 16-bit range, yields 54463.
\<close>

theorem C8_counterexample:
  "max_bps SSC_SLAVE < 12000000 \<and> SSC_BAUD 12000000 = Inr 0
    \<and> max_bps SSC_MASTER < 24000000 \<and> SSC_BAUD 24000000 = Inr 65535
    \<and> 65535 < 12000000 div uint (100 :: ulong) - 1 \<and> SSC_BAUD 100 = Inr 54463"
  by (simp add: SSC_BAUD_def max_bps_def SSC_SLAVE_def SSC_MASTER_def uword_cast_minus_one)

text \<open>
  C8 (amended): the baud macro takes no mode and rejects nothing: for every
  nonzero \<open>bps\<close>, whether or not the divisor fits the counter and whether or
  not \<open>bps\<close> is above the ceiling of either mode, it yields a value and never
  an invalid-parameter condition; the value is \<open>floor (12000000 / bps) - 1\<close>
  reduced modulo \<open>2 ^ 16\<close>.
\<close>

theorem C8_SSC_BAUD_never_rejects:
  assumes "bps \<noteq> 0"
  shows "SSC_BAUD bps \<noteq> Inl InvalidParameter
    \<and> (\<exists>d. SSC_BAUD bps = Inr d \<and> uint d = (12000000 div uint bps - 1) mod 65536)"
  using SSC_BAUD_uint [OF assms] by auto

theorem C8_SSC_BAUD_never_rejects_witness:
  "(100 :: ulong) \<noteq> 0 \<and> SSC_BAUD 100 \<noteq> Inl InvalidParameter
    \<and> SSC_BAUD 100 = Inr 54463
    \<and> uint (54463 :: uword) = (12000000 div uint (100 :: ulong) - 1) mod 65536"
  using C8_SSC_BAUD_never_rejects [of 100] by (simp add: SSC_BAUD_def)

text \<open>
  C10: for every \<open>bps\<close> above 12000000 the quotient \<open>12000000ul / bps\<close> is 0, the
  macro computes \<open>0 - 1\<close> in unsigned arithmetic and the cast to \<open>uword\<close> gives
  \<open>0xFFFF\<close>; the request is not rejected.
\<close>

theorem C10_SSC_BAUD_over_ceiling:
  assumes "12000000 < (bps :: ulong)"
  shows "(12000000 :: ulong) div bps = 0 \<and> SSC_BAUD bps = Inr 0xFFFF"
proof -
  from assms have q: "(12000000 :: ulong) div bps = 0"
    by (simp add: div_word_less)
  from assms have "bps \<noteq> 0" by auto
  with q show ?thesis by (simp add: SSC_BAUD_def uword_cast_minus_one)
qed

theorem C10_SSC_BAUD_over_ceiling_witness:
  "(12000000 :: ulong) < 24000000 \<and> (12000000 :: ulong) div 24000000 = 0
    \<and> SSC_BAUD 24000000 = Inr 0xFFFF"
  using C10_SSC_BAUD_over_ceiling [of 24000000] by simp

section \<open>Properties of the configuration byte macro\<close>

lemma width_cases:
  assumes "2 \<le> (width :: int)" and "width \<le> 8"
  shows "width \<in> {2, 3, 4, 5, 6, 7, 8}"
  using assms by auto

text \<open>For arguments in range the bitwise union is a sum: no two fields share a bit.\<close>

lemma SSC_CONF_sum:
  assumes "2 \<le> width" and "width \<le> 8"
    and "heading \<in> {0, 1}" and "phase \<in> {0, 1}"
    and "polarity \<in> {0, 1}" and "duplex \<in> {0, 1}"
  shows "SSC_CONF width heading phase polarity duplex =
    (width - 1) + 16 * heading + 32 * phase + 64 * polarity + 128 * duplex"
  using width_cases [OF assms(1,2)] assms(3-) unfolding SSC_CONF_def by auto

lemma SSC_CONF_width_field:
  assumes "2 \<le> width" and "width \<le> 8"
    and "heading \<in> {0, 1}" and "phase \<in> {0, 1}"
    and "polarity \<in> {0, 1}" and "duplex \<in> {0, 1}"
  shows "take_bit 3 (SSC_CONF width heading phase polarity duplex) = width - 1"
  using width_cases [OF assms(1,2)] assms(3-) unfolding SSC_CONF_def by auto

lemma flag_bit: "x \<in> {0, 1 :: int} \<Longrightarrow> bit x n = (x = 1 \<and> n = 0)"
  by (auto simp: bit_1_iff)

lemma width_field_high_bits:
  assumes "2 \<le> (width :: int)" and "width \<le> 8"
  shows "\<not> bit (width - 1) 3" and "\<not> bit (width - 1) 4" and "\<not> bit (width - 1) 5"
    and "\<not> bit (width - 1) 6" and "\<not> bit (width - 1) 7"
  using width_cases [OF assms] by auto

lemma SSC_CONF_flag_bits:
  assumes "2 \<le> width" and "width \<le> 8"
    and "heading \<in> {0, 1}" and "phase \<in> {0, 1}"
    and "polarity \<in> {0, 1}" and "duplex \<in> {0, 1}"
  shows "\<not> bit (SSC_CONF width heading phase polarity duplex) 3"
    and "bit (SSC_CONF width heading phase polarity duplex) 4 = (heading = 1)"
    and "bit (SSC_CONF width heading phase polarity duplex) 5 = (phase = 1)"
    and "bit (SSC_CONF width heading phase polarity duplex) 6 = (polarity = 1)"
    and "bit (SSC_CONF width heading phase polarity duplex) 7 = (duplex = 1)"
  unfolding SSC_CONF_def
  by (simp_all add: bit_or_iff bit_push_bit_iff width_field_high_bits [OF assms(1,2)]
      flag_bit [OF assms(3)] flag_bit [OF assms(4)] flag_bit [OF assms(5)] flag_bit [OF assms(6)])

lemma flag_bounds: "x \<in> {0, 1 :: int} \<Longrightarrow> 0 \<le> x \<and> x \<le> 1"
  by auto

lemma SSC_CONF_byte:
  assumes "2 \<le> width" and "width \<le> 8"
    and "heading \<in> {0, 1}" and "phase \<in> {0, 1}"
    and "polarity \<in> {0, 1}" and "duplex \<in> {0, 1}"
  shows "0 \<le> SSC_CONF width heading phase polarity duplex
    \<and> SSC_CONF width heading phase polarity duplex < 256"
proof -
  note b = flag_bounds [OF assms(3)] flag_bounds [OF assms(4)]
    flag_bounds [OF assms(5)] flag_bounds [OF assms(6)]
  show ?thesis
    unfolding SSC_CONF_sum [OF assms] using assms(1,2) b by arith
qed

text \<open>
  C2: for every width in \<open>[2, 8]\<close> and every heading, phase, polarity and duplex
  in \<open>{0, 1}\<close>, bits 0 to 2 of \<open>SSC_CONF\<close> hold \<open>width - 1\<close> (the result masked with
  7 is \<open>width - 1\<close>), and \<open>SSC_CONF (8, 0, 0, 0, 1)\<close> is the byte \<open>0x87\<close>.
\<close>

theorem C2_SSC_CONF_width_bits:
  assumes "2 \<le> width" and "width \<le> 8"
    and "heading \<in> {0, 1}" and "phase \<in> {0, 1}"
    and "polarity \<in> {0, 1}" and "duplex \<in> {0, 1}"
  shows "take_bit 3 (SSC_CONF width heading phase polarity duplex) = width - 1
    \<and> SSC_CONF width heading phase polarity duplex AND 7 = width - 1
    \<and> SSC_CONF 8 0 0 0 1 = 0x87"
proof -
  have low: "take_bit 3 (SSC_CONF width heading phase polarity duplex) = width - 1"
    using assms by (rule SSC_CONF_width_field)
  have "SSC_CONF width heading phase polarity duplex AND 7 =
      take_bit 3 (SSC_CONF width heading phase polarity duplex)"
    by (simp add: take_bit_eq_mask mask_eq_exp_minus_1)
  moreover have "SSC_CONF 8 0 0 0 1 = 0x87"
    by (simp add: SSC_CONF_def)
  ultimately show ?thesis using low by simp
qed

theorem C2_SSC_CONF_width_bits_witness:
  "(2 :: int) \<le> 5 \<and> (5 :: int) \<le> 8 \<and> (1 :: int) \<in> {0, 1} \<and> (0 :: int) \<in> {0, 1}
    \<and> take_bit 3 (SSC_CONF 5 1 0 1 0) = 4 \<and> SSC_CONF 5 1 0 1 0 AND 7 = 4
    \<and> SSC_CONF 8 0 0 0 1 = 0x87"
  using C2_SSC_CONF_width_bits [of 5 1 0 1 0] by (simp add: SSC_CONF_def)

text \<open>
  C3, as stated, at \<open>width = 8\<close>: the stored width field is 7, outside the range
  0 to 6.
\<close>

theorem C3_counterexample:
  "(2 :: int) \<le> 8 \<and> (8 :: int) \<le> 8 \<and> take_bit 3 (SSC_CONF 8 0 0 0 0) = 7
    \<and> \<not> take_bit 3 (SSC_CONF 8 0 0 0 0) \<le> 6"
  by (simp add: SSC_CONF_def)

text \<open>
  C3 (amended): for every width in \<open>[2, 8]\<close>, the stored width field (bits 0 to
  2) of the packed byte equals \<open>width - 1\<close> and lies in the range 1 to 7, and
  each of heading, phase, polarity and duplex occupies exactly one flag bit
  above the width field (bits 4, 5, 6 and 7); bit 3 stays clear and the value
  fits a byte.
\<close>

theorem C3_SSC_CONF_layout:
  assumes "2 \<le> width" and "width \<le> 8"
    and "heading \<in> {0, 1}" and "phase \<in> {0, 1}"
    and "polarity \<in> {0, 1}" and "duplex \<in> {0, 1}"
  shows "take_bit 3 (SSC_CONF width heading phase polarity duplex) = width - 1
    \<and> 1 \<le> take_bit 3 (SSC_CONF width heading phase polarity duplex)
    \<and> take_bit 3 (SSC_CONF width heading phase polarity duplex) \<le> 7
    \<and> \<not> bit (SSC_CONF width heading phase polarity duplex) 3
    \<and> bit (SSC_CONF width heading phase polarity duplex) 4 = (heading = 1)
    \<and> bit (SSC_CONF width heading phase polarity duplex) 5 = (phase = 1)
    \<and> bit (SSC_CONF width heading phase polarity duplex) 6 = (polarity = 1)
    \<and> bit (SSC_CONF width heading phase polarity duplex) 7 = (duplex = 1)
    \<and> 0 \<le> SSC_CONF width heading phase polarity duplex
    \<and> SSC_CONF width heading phase polarity duplex < 256"
proof -
  let ?c = "SSC_CONF width heading phase polarity duplex"
  have low: "take_bit 3 ?c = width - 1"
    using assms by (rule SSC_CONF_width_field)
  then have range: "1 \<le> take_bit 3 ?c \<and> take_bit 3 ?c \<le> 7"
    using assms(1,2) by simp
  have byte: "0 \<le> ?c \<and> ?c < 256"
    using assms by (rule SSC_CONF_byte)
  show ?thesis
    using low range byte SSC_CONF_flag_bits [OF assms] by simp
qed

theorem C3_SSC_CONF_layout_witness:
  "(2 :: int) \<le> 8 \<and> (8 :: int) \<le> 8 \<and> (1 :: int) \<in> {0, 1} \<and> (0 :: int) \<in> {0, 1}
    \<and> take_bit 3 (SSC_CONF 8 0 1 0 1) = 7
    \<and> \<not> bit (SSC_CONF 8 0 1 0 1) 3 \<and> \<not> bit (SSC_CONF 8 0 1 0 1) 4
    \<and> bit (SSC_CONF 8 0 1 0 1) 5 \<and> \<not> bit (SSC_CONF 8 0 1 0 1) 6
    \<and> bit (SSC_CONF 8 0 1 0 1) 7 \<and> SSC_CONF 8 0 1 0 1 < 256"
  using C3_SSC_CONF_layout [of 8 0 1 0 1] by (simp add: SSC_CONF_def)

text \<open>
  C7, as stated, at the widths 9 and 1 (both outside \<open>[2, 8]\<close>): the macro
  yields the values \<open>0x88\<close> and \<open>0x80\<close> and reports nothing.
\<close>

theorem C7_counterexample:
  "\<not> (9 :: int) \<le> 8 \<and> SSC_CONF_result 9 0 0 0 1 = Inr 0x88
    \<and> \<not> (2 :: int) \<le> 1 \<and> SSC_CONF_result 1 0 0 0 1 = Inr 0x80"
  by (simp add: SSC_CONF_result_def SSC_CONF_def)

text \<open>
  C7 (amended): the frame-config macro has no failing case: it reports an
  invalid-parameter condition for no width, inside or outside \<open>[2, 8]\<close>; for
  every width, inside or outside \<open>[2, 8]\<close>, it yields \<open>width - 1\<close> OR-ed with
  the four shifted flags; and for every width in \<open>[2, 8]\<close> (with flags in
  \<open>{0, 1}\<close>) that value is a byte whose bits 0 to 2 are \<open>width - 1\<close>.
\<close>

theorem C7_SSC_CONF_never_fails:
  "(\<forall>e. SSC_CONF_result width heading phase polarity duplex \<noteq> Inl e)
    \<and> SSC_CONF_result width heading phase polarity duplex =
        Inr ((width - 1) OR push_bit 4 heading OR push_bit 5 phase
              OR push_bit 6 polarity OR push_bit 7 duplex)
    \<and> (2 \<le> width \<and> width \<le> 8 \<and> heading \<in> {0, 1} \<and> phase \<in> {0, 1}
          \<and> polarity \<in> {0, 1} \<and> duplex \<in> {0, 1} \<longrightarrow>
        (\<exists>c. SSC_CONF_result width heading phase polarity duplex = Inr c
          \<and> 0 \<le> c \<and> c < 256 \<and> take_bit 3 c = width - 1))"
proof (intro conjI impI allI)
  fix e
  show "SSC_CONF_result width heading phase polarity duplex \<noteq> Inl e"
    by (simp add: SSC_CONF_result_def)
next
  show "SSC_CONF_result width heading phase polarity duplex =
      Inr ((width - 1) OR push_bit 4 heading OR push_bit 5 phase
            OR push_bit 6 polarity OR push_bit 7 duplex)"
    by (simp add: SSC_CONF_result_def SSC_CONF_def)
next
  assume a: "2 \<le> width \<and> width \<le> 8 \<and> heading \<in> {0, 1} \<and> phase \<in> {0, 1}
    \<and> polarity \<in> {0, 1} \<and> duplex \<in> {0, 1}"
  let ?c = "SSC_CONF width heading phase polarity duplex"
  from a have "0 \<le> ?c \<and> ?c < 256"
    by (intro SSC_CONF_byte) simp_all
  moreover from a have "take_bit 3 ?c = width - 1"
    by (intro SSC_CONF_width_field) simp_all
  ultimately show "\<exists>c. SSC_CONF_result width heading phase polarity duplex = Inr c
      \<and> 0 \<le> c \<and> c < 256 \<and> take_bit 3 c = width - 1"
    by (simp add: SSC_CONF_result_def)
qed

theorem C7_SSC_CONF_never_fails_witness:
  "SSC_CONF_result 9 0 0 0 1 \<noteq> Inl InvalidParameter
    \<and> SSC_CONF_result 9 0 0 0 1 = Inr 0x88
    \<and> SSC_CONF_result 1 0 0 0 1 = Inr 0x80
    \<and> SSC_CONF_result 0 1 1 1 1 = Inr (- 1)
    \<and> (2 :: int) \<le> 8 \<and> (8 :: int) \<le> 8 \<and> (0 :: int) \<in> {0, 1} \<and> (1 :: int) \<in> {0, 1}
    \<and> SSC_CONF_result 8 0 0 0 1 = Inr 0x87 \<and> take_bit 3 (0x87 :: int) = 8 - 1"
  using C7_SSC_CONF_never_fails [of 9 0 0 0 1] C7_SSC_CONF_never_fails [of 1 0 0 0 1]
    C7_SSC_CONF_never_fails [of 0 1 1 1 1] C7_SSC_CONF_never_fails [of 8 0 0 0 1]
  by simp

section \<open>Properties of the port selection constants\<close>

lemma ports_masks:
  assumes "m \<in> MRST_ports" and "t \<in> MTSR_ports" and "c \<in> SCLK_ports"
  shows "m AND 3 = m \<and> t AND 12 = t \<and> c AND 48 = c
    \<and> m AND t = 0 \<and> m AND c = 0 \<and> t AND c = 0
    \<and> (m OR t OR c) = m + t + c
    \<and> (m OR t OR c) AND 3 = m \<and> (m OR t OR c) AND 12 = t \<and> (m OR t OR c) AND 48 = c"
  using assms
  unfolding MRST_ports_def MTSR_ports_def SCLK_ports_def
    SSC_MRST_P05_def SSC_MRST_P14_def SSC_MRST_P15_def
    SSC_MTSR_P04_def SSC_MTSR_P13_def SSC_MTSR_P14_def
    SSC_SCLK_P03_def SSC_SCLK_P12_def SSC_SCLK_P13_def
  by auto

text \<open>
  C5: the three families of port constants lie in pairwise disjoint bit
  ranges (bits 0 to 1, 2 to 3 and 4 to 5), so for every choice of one constant
  per role the bitwise union of the three equals their sum, and each role's
  code is recovered from the union by masking with its range; hence two
  choices with the same union are the same choice.
\<close>

theorem C5_ports_disjoint:
  assumes "mrst \<in> MRST_ports" and "mtsr \<in> MTSR_ports" and "sclk \<in> SCLK_ports"
    and "mrst' \<in> MRST_ports" and "mtsr' \<in> MTSR_ports" and "sclk' \<in> SCLK_ports"
  shows "mrst AND 3 = mrst \<and> mtsr AND 12 = mtsr \<and> sclk AND 48 = sclk
    \<and> mrst AND mtsr = 0 \<and> mrst AND sclk = 0 \<and> mtsr AND sclk = 0
    \<and> (mrst OR mtsr OR sclk) = mrst + mtsr + sclk
    \<and> (mrst OR mtsr OR sclk) AND 3 = mrst
    \<and> (mrst OR mtsr OR sclk) AND 12 = mtsr
    \<and> (mrst OR mtsr OR sclk) AND 48 = sclk
    \<and> ((mrst' OR mtsr' OR sclk') = (mrst OR mtsr OR sclk) \<longrightarrow>
          mrst' = mrst \<and> mtsr' = mtsr \<and> sclk' = sclk)"
proof -
  note a = ports_masks [OF assms(1-3)]
  note b = ports_masks [OF assms(4-6)]
  have "mrst' = mrst \<and> mtsr' = mtsr \<and> sclk' = sclk"
    if eq: "(mrst' OR mtsr' OR sclk') = (mrst OR mtsr OR sclk)"
  proof -
    from a have "(mrst OR mtsr OR sclk) AND 3 = mrst"
      and "(mrst OR mtsr OR sclk) AND 12 = mtsr"
      and "(mrst OR mtsr OR sclk) AND 48 = sclk"
      by blast+
    moreover from b have "(mrst' OR mtsr' OR sclk') AND 3 = mrst'"
      and "(mrst' OR mtsr' OR sclk') AND 12 = mtsr'"
      and "(mrst' OR mtsr' OR sclk') AND 48 = sclk'"
      by blast+
    ultimately show ?thesis by (simp only: eq)
  qed
  with a show ?thesis by blast
qed

theorem C5_ports_disjoint_witness:
  "SSC_MRST_P05 \<in> MRST_ports \<and> SSC_MTSR_P14 \<in> MTSR_ports \<and> SSC_SCLK_P03 \<in> SCLK_ports
    \<and> SSC_MRST_P15 \<in> MRST_ports \<and> SSC_MTSR_P04 \<in> MTSR_ports \<and> SSC_SCLK_P12 \<in> SCLK_ports
    \<and> (SSC_MRST_P05 OR SSC_MTSR_P14 OR SSC_SCLK_P03) = SSC_MRST_P05 + SSC_MTSR_P14 + SSC_SCLK_P03
    \<and> (SSC_MRST_P05 OR SSC_MTSR_P14 OR SSC_SCLK_P03) AND 3 = SSC_MRST_P05
    \<and> (SSC_MRST_P05 OR SSC_MTSR_P14 OR SSC_SCLK_P03) AND 12 = SSC_MTSR_P14
    \<and> (SSC_MRST_P05 OR SSC_MTSR_P14 OR SSC_SCLK_P03) AND 48 = SSC_SCLK_P03
    \<and> (SSC_MRST_P05 OR SSC_MTSR_P14 OR SSC_SCLK_P03) = 25
    \<and> (SSC_MRST_P15 OR SSC_MTSR_P04 OR SSC_SCLK_P12) = 6"
proof -
  have m: "SSC_MRST_P05 \<in> MRST_ports" and m': "SSC_MRST_P15 \<in> MRST_ports"
    by (simp_all add: MRST_ports_def)
  have t: "SSC_MTSR_P14 \<in> MTSR_ports" and t': "SSC_MTSR_P04 \<in> MTSR_ports"
    by (simp_all add: MTSR_ports_def)
  have c: "SSC_SCLK_P03 \<in> SCLK_ports" and c': "SSC_SCLK_P12 \<in> SCLK_ports"
    by (simp_all add: SCLK_ports_def)
  have v: "(SSC_MRST_P05 OR SSC_MTSR_P14 OR SSC_SCLK_P03) = 25"
    and v': "(SSC_MRST_P15 OR SSC_MTSR_P04 OR SSC_SCLK_P12) = 6"
    by (simp_all add: SSC_MRST_P05_def SSC_MTSR_P14_def SSC_SCLK_P03_def
        SSC_MRST_P15_def SSC_MTSR_P04_def SSC_SCLK_P12_def)
  from C5_ports_disjoint [OF m t c m' t' c'] m t c m' t' c' v v'
  show ?thesis by blast
qed

section \<open>Properties of the transceive engine and the lifecycle controller\<close>

lemma completions_snoc:
  "completions (rxs @ [rx]) s = byte_complete rx (completions rxs s)"
  by (induction rxs arbitrary: s) simp_all

lemma transfer_events_Suc:
  "transfer_events buf rxs (Suc k) =
     transfer_events buf rxs k @ [Transmit k (buf ! k), Complete k (rxs ! k)]"
  by (simp add: transfer_events_def)

lemma transfer_events_completions:
  "length (filter is_Complete (transfer_events buf rxs k)) = k"
  by (induction k) (simp_all add: transfer_events_def)

lemma overwrite_position:
  assumes "k < length rxs" and "k < length buf"
  shows "(take k rxs @ drop k buf)[k := rxs ! k] = take (Suc k) rxs @ drop (Suc k) buf"
proof -
  from assms(1) have l: "length (take k rxs) = k" by simp
  have d: "drop k buf = buf ! k # drop (Suc k) buf"
    using assms(2) by (simp add: Cons_nth_drop_Suc)
  have "(take k rxs @ drop k buf)[k := rxs ! k] = take k rxs @ (drop k buf)[0 := rxs ! k]"
    using l by (simp add: list_update_append)
  also have "\<dots> = take k rxs @ (rxs ! k # drop (Suc k) buf)"
    by (subst d) simp
  also have "\<dots> = take (Suc k) rxs @ drop (Suc k) buf"
    using assms(1) by (simp add: take_Suc_conv_app_nth)
  finally show ?thesis .
qed

lemma next_position:
  assumes "Suc k \<le> length rxs" and "Suc k < length buf"
  shows "(take (Suc k) rxs @ drop (Suc k) buf) ! Suc k = buf ! Suc k"
proof -
  from assms(1) have "length (take (Suc k) rxs) = Suc k" by simp
  then have "(take (Suc k) rxs @ drop (Suc k) buf) ! Suc k = drop (Suc k) buf ! 0"
    by (metis nth_append_length_plus add.right_neutral)
  with assms(2) show ?thesis by simp
qed

text \<open>The state after the first \<open>k\<close> of \<open>n\<close> bytes have completed.\<close>

lemma talk_in_flight:
  assumes idle: "pstate s = Enabled_Idle" and fits: "unat n \<le> length buf"
    and rx: "length rxs = unat n" and talk: "hsk_ssc_talk buf n s = Inr s0"
    and k: "k < unat n"
  shows "pstate (completions (take k rxs) s0) = Enabled_Busy
    \<and> pos (completions (take k rxs) s0) = k
    \<and> len (completions (take k rxs) s0) = unat n
    \<and> buffer (completions (take k rxs) s0) = take k rxs @ drop k buf
    \<and> events (completions (take k rxs) s0) =
        events s @ transfer_events buf rxs k @ [Transmit k (buf ! k)]"
  using k
proof (induction k)
  case 0
  from talk idle fits 0 have "s0 = load_byte (s\<lparr>buffer := buf, len := unat n, pos := 0\<rparr>)"
    by (simp add: hsk_ssc_talk_def Let_def split: if_splits)
  then show ?case
    by (simp add: load_byte_def transfer_events_def)
next
  case (Suc k)
  let ?t = "completions (take k rxs) s0"
  from Suc.prems have k: "k < unat n" by simp
  note ih = Suc.IH [OF k]
  from k rx have kr: "k < length rxs" by simp
  from k fits have kb: "k < length buf" by simp
  from Suc.prems fits have skb: "Suc k < length buf" by simp
  from Suc.prems rx have skr: "Suc k \<le> length rxs" by simp
  have step: "completions (take (Suc k) rxs) s0 = byte_complete (rxs ! k) ?t"
    using kr by (simp add: take_Suc_conv_app_nth completions_snoc)
  have buf': "(buffer ?t)[pos ?t := rxs ! k] = take (Suc k) rxs @ drop (Suc k) buf"
    using ih overwrite_position [OF kr kb] by simp
  show ?case
    unfolding step
    using ih Suc.prems buf' next_position [OF skr skb]
    by (simp add: byte_complete_def load_byte_def Let_def transfer_events_Suc)
qed

lemma talk_finished:
  assumes idle: "pstate s = Enabled_Idle" and fits: "unat n \<le> length buf"
    and rx: "length rxs = unat n" and talk: "hsk_ssc_talk buf n s = Inr s0"
  shows "pstate (completions rxs s0) = Enabled_Idle
    \<and> buffer (completions rxs s0) = rxs @ drop (unat n) buf
    \<and> events (completions rxs s0) = events s @ transfer_events buf rxs (unat n)"
proof (cases "unat n")
  case 0
  with rx have "rxs = []" by simp
  moreover from talk idle fits 0 have "s0 = s\<lparr>buffer := buf, len := unat n, pos := 0\<rparr>"
    by (simp add: hsk_ssc_talk_def Let_def split: if_splits)
  ultimately show ?thesis using idle 0 by (simp add: transfer_events_def)
next
  case (Suc k)
  let ?t = "completions (take k rxs) s0"
  from Suc have k: "k < unat n" by simp
  note inv = talk_in_flight [OF idle fits rx talk k]
  from k rx have kr: "k < length rxs" by simp
  from k fits have kb: "k < length buf" by simp
  from rx Suc have whole: "take (Suc k) rxs = rxs" by simp
  have "rxs = take k rxs @ [rxs ! k]"
    using kr whole by (metis take_Suc_conv_app_nth)
  then have step: "completions rxs s0 = byte_complete (rxs ! k) ?t"
    by (metis completions_snoc)
  have buf': "(buffer ?t)[pos ?t := rxs ! k] = rxs @ drop (Suc k) buf"
    using inv overwrite_position [OF kr kb] whole by simp
  show ?thesis
    unfolding step
    using inv Suc buf'
    by (simp add: byte_complete_def Let_def transfer_events_Suc)
qed


text \<open>
  C4: a call \<open>hsk_ssc_talk (buffer, len)\<close> in the state \<open>Enabled-Idle\<close> that runs
  to full completion (the completion flag fires \<open>len\<close> times, with the bytes
  \<open>rxs\<close>): exactly \<open>len\<close> completion events occur; on the line, position after
  position from 0 to \<open>len - 1\<close>, the buffer's byte is transmitted and then the
  position is overwritten with the byte received, none skipped or repeated;
  the buffer ends as the received bytes followed by its untouched rest; and
  the peripheral is busy after the call and after each completion but the
  last, and \<open>Enabled-Idle\<close> after the last.
\<close>

theorem C4_talk_complete:
  assumes "pstate s = Enabled_Idle" and "unat n \<le> length buf" and "length rxs = unat n"
  shows "\<exists>s0. hsk_ssc_talk buf n s = Inr s0
    \<and> events (completions rxs s0) =
        events s @ concat (map (\<lambda>i. [Transmit i (buf ! i), Complete i (rxs ! i)]) [0..<unat n])
    \<and> length (filter is_Complete (events (completions rxs s0))) =
        length (filter is_Complete (events s)) + unat n
    \<and> buffer (completions rxs s0) = rxs @ drop (unat n) buf
    \<and> (\<forall>k < unat n. hsk_ssc_busy (completions (take k rxs) s0))
    \<and> pstate (completions rxs s0) = Enabled_Idle"
proof -
  from assms(1,2) have "\<exists>s0. hsk_ssc_talk buf n s = Inr s0"
    by (simp add: hsk_ssc_talk_def Let_def)
  then obtain s0 where talk: "hsk_ssc_talk buf n s = Inr s0" ..
  note fin = talk_finished [OF assms talk]
  have "hsk_ssc_busy (completions (take k rxs) s0)" if "k < unat n" for k
    using talk_in_flight [OF assms talk that] by (simp add: hsk_ssc_busy_def)
  moreover have "length (filter is_Complete (events (completions rxs s0))) =
      length (filter is_Complete (events s)) + unat n"
    using fin by (simp add: transfer_events_completions)
  ultimately show ?thesis
    using talk fin by (simp add: transfer_events_def)
qed

theorem C4_talk_complete_witness:
  "pstate (hsk_ssc_enable reset) = Enabled_Idle
    \<and> unat (2 :: ubyte) \<le> length [0xAA, 0xBB :: ubyte] \<and> length [1, 2 :: ubyte] = unat (2 :: ubyte)
    \<and> (\<exists>s0. hsk_ssc_talk [0xAA, 0xBB] 2 (hsk_ssc_enable reset) = Inr s0
        \<and> events (completions [1, 2] s0) =
            [Transmit 0 0xAA, Complete 0 1, Transmit 1 0xBB, Complete 1 2]
        \<and> buffer (completions [1, 2] s0) = [1, 2]
        \<and> hsk_ssc_busy s0
        \<and> pstate (completions [1, 2] s0) = Enabled_Idle)"
proof -
  have idle: "pstate (hsk_ssc_enable reset) = Enabled_Idle"
    by (simp add: hsk_ssc_enable_def reset_def)
  have fits: "unat (2 :: ubyte) \<le> length [0xAA, 0xBB :: ubyte]" by simp
  have rx: "length [1, 2 :: ubyte] = unat (2 :: ubyte)" by simp
  have ev: "events (hsk_ssc_enable reset) = []"
    by (simp add: hsk_ssc_enable_def reset_def)
  have idx: "[0..<unat (2 :: ubyte)] = [0, 1]"
    by (simp add: upt_rec)
  from C4_talk_complete [OF idle fits rx] obtain s0
    where talk: "hsk_ssc_talk [0xAA, 0xBB] 2 (hsk_ssc_enable reset) = Inr s0"
      and e: "events (completions [1, 2] s0) = events (hsk_ssc_enable reset)
        @ concat (map (\<lambda>i. [Transmit i ([0xAA, 0xBB] ! i), Complete i ([1, 2] ! i)])
            [0..<unat (2 :: ubyte)])"
      and b: "buffer (completions [1, 2] s0) = [1, 2] @ drop (unat (2 :: ubyte)) [0xAA, 0xBB]"
      and busy: "\<forall>k < unat (2 :: ubyte). hsk_ssc_busy (completions (take k [1, 2]) s0)"
      and fin: "pstate (completions [1, 2] s0) = Enabled_Idle"
    by blast
  have "(0 :: nat) < unat (2 :: ubyte)" by simp
  with busy have "hsk_ssc_busy (completions (take 0 [1, 2]) s0)" by blast
  then have busy0: "hsk_ssc_busy s0" by simp
  from e have e': "events (completions [1, 2] s0) =
      [Transmit 0 0xAA, Complete 0 1, Transmit 1 0xBB, Complete 1 2]"
    unfolding ev idx by simp
  from b have b': "buffer (completions [1, 2] s0) = [1, 2]" by simp
  from idle fits rx talk e' b' busy0 fin show ?thesis by blast
qed

text \<open>
  C9, as stated, in the reachable state with a transfer in flight (after
  \<open>init\<close>, \<open>enable\<close> and a \<open>talk\<close> of one byte): calling \<open>enable\<close> twice leaves the
  state \<open>Enabled-Busy\<close>, not \<open>Enabled-Idle\<close>.
\<close>

theorem C9_counterexample:
  "map_sum id pstate
     (do_calls [Init 11 0x87 SSC_MASTER, Enable, Talk [0xAA] 1, Enable, Enable] reset)
    = Inr Enabled_Busy"
  by (simp add: reset_def hsk_ssc_init_def hsk_ssc_enable_def hsk_ssc_talk_def load_byte_def)

text \<open>
  C9 (amended): \<open>enable\<close> and \<open>disable\<close> are idempotent: in every reachable
  state, calling \<open>enable\<close> twice in a row yields the same state as calling it
  once, which is \<open>Enabled-Idle\<close> unless a transfer is in flight (then \<open>enable\<close>
  is a no-op and the state stays \<open>Enabled-Busy\<close>), and calling \<open>disable\<close> twice
  in a row yields the same state as calling it once, which is \<open>Disabled\<close>.
\<close>

theorem C9_enable_disable_idempotent:
  assumes "do_calls cs reset = Inr s"
  shows "hsk_ssc_enable (hsk_ssc_enable s) = hsk_ssc_enable s
    \<and> pstate (hsk_ssc_enable s) =
        (if pstate s = Enabled_Busy then Enabled_Busy else Enabled_Idle)
    \<and> hsk_ssc_disable (hsk_ssc_disable s) = hsk_ssc_disable s
    \<and> pstate (hsk_ssc_disable s) = Disabled"
  by (cases "pstate s") (simp_all add: hsk_ssc_enable_def hsk_ssc_disable_def)

theorem C9_enable_disable_idempotent_witness:
  "do_calls [Init 11 0x87 SSC_MASTER, Enable] reset
      = Inr (hsk_ssc_enable (hsk_ssc_init 11 0x87 SSC_MASTER reset))
    \<and> pstate (hsk_ssc_enable (hsk_ssc_enable (hsk_ssc_init 11 0x87 SSC_MASTER reset)))
      = Enabled_Idle
    \<and> pstate (hsk_ssc_disable (hsk_ssc_disable
        (hsk_ssc_enable (hsk_ssc_init 11 0x87 SSC_MASTER reset)))) = Disabled"
proof -
  have r: "do_calls [Init 11 0x87 SSC_MASTER, Enable] reset
      = Inr (hsk_ssc_enable (hsk_ssc_init 11 0x87 SSC_MASTER reset))"
    by simp
  have p: "pstate (hsk_ssc_enable (hsk_ssc_init 11 0x87 SSC_MASTER reset)) = Enabled_Idle"
    by (simp add: hsk_ssc_enable_def hsk_ssc_init_def)
  from C9_enable_disable_idempotent [OF r] p r show ?thesis by simp
qed

end
